theory Spec2Isabelle
  imports Complex_Main
begin

section \<open>Python values\<close>

text \<open>
  A Python \<open>str\<close> is a sequence of Unicode code points, and \<open>len\<close> counts code points,
  so a string is modelled as a list of code points. \<open>py\<close> turns a literal into one.
\<close>

type_synonym str = "nat list"

definition py :: "string \<Rightarrow> str" where
  "py = map of_char"

text \<open>The characters \<open>str.strip()\<close> removes: those for which \<open>str.isspace\<close> holds.\<close>

definition isspace :: "nat \<Rightarrow> bool" where
  "isspace c \<longleftrightarrow>
     (9 \<le> c \<and> c \<le> 13) \<or> (28 \<le> c \<and> c \<le> 32) \<or> c = 133 \<or> c = 160 \<or> c = 5760 \<or>
     (8192 \<le> c \<and> c \<le> 8202) \<or> c = 8232 \<or> c = 8233 \<or> c = 8239 \<or> c = 8287 \<or> c = 12288"

definition strip :: "str \<Rightarrow> str" where
  "strip s = rev (dropWhile isspace (rev (dropWhile isspace s)))"

text \<open>
  \<open>s.replace(old, new)\<close>: the occurrences of \<open>old\<close> are found from the left and do not
  overlap; an empty \<open>old\<close> matches before every character and at the end.
\<close>

function replace :: "str \<Rightarrow> str \<Rightarrow> str \<Rightarrow> str" where
  "replace old new s =
     (if old = [] then new @ concat (map (\<lambda>c. c # new) s)
      else (case s of
              [] \<Rightarrow> []
            | c # cs \<Rightarrow>
                if take (length old) s = old then new @ replace old new (drop (length old) s)
                else c # replace old new cs))"
  by pat_completeness auto
termination
  by (relation "measure (\<lambda>(old, new, s). length s)") auto

declare replace.simps [simp del]

text \<open>
  \<open>s.split(sep)\<close> for a separator of one character: the pieces between the separators,
  empty pieces included, so the result is never empty.
\<close>

fun split :: "nat \<Rightarrow> str \<Rightarrow> str list" where
  "split sep [] = [[]]"
| "split sep (c # cs) =
     (if c = sep then [] # split sep cs
      else (case split sep cs of
              [] \<Rightarrow> [[c]]
            | piece # pieces \<Rightarrow> (c # piece) # pieces))"

text \<open>\<open>sep.join(xs)\<close>.\<close>

fun join :: "str \<Rightarrow> str list \<Rightarrow> str" where
  "join sep [] = []"
| "join sep [x] = x"
| "join sep (x # y # ys) = x @ sep @ join sep (y # ys)"

text \<open>\<open>s.split()\<close>: the maximal runs of characters that are not whitespace.\<close>

function words_of :: "str \<Rightarrow> str list" where
  "words_of [] = []"
| "words_of (c # cs) =
     (if isspace c then words_of cs
      else (c # takeWhile (\<lambda>x. \<not> isspace x) cs) #
           words_of (dropWhile (\<lambda>x. \<not> isspace x) cs))"
  by pat_completeness auto
termination
  by (relation "measure length") (auto simp: length_dropWhile_le less_Suc_eq_le)

text \<open>
  The values a decoded JSON document is made of, which are also the values the handlers
  test for truth. A \<open>dict\<close> is an association list in insertion order.
\<close>

datatype pyval =
    PNone
  | PBool bool
  | PInt int
  | PFloat real
  | PStr str
  | PList "pyval list"
  | PDict "(str \<times> pyval) list"

fun truthy :: "pyval \<Rightarrow> bool" where
  "truthy PNone = False"
| "truthy (PBool b) = b"
| "truthy (PInt n) = (n \<noteq> 0)"
| "truthy (PFloat x) = (x \<noteq> 0)"
| "truthy (PStr s) = (s \<noteq> [])"
| "truthy (PList xs) = (xs \<noteq> [])"
| "truthy (PDict kvs) = (kvs \<noteq> [])"

fun type_name :: "pyval \<Rightarrow> str" where
  "type_name PNone = py ''NoneType''"
| "type_name (PBool b) = py ''bool''"
| "type_name (PInt n) = py ''int''"
| "type_name (PFloat x) = py ''float''"
| "type_name (PStr s) = py ''str''"
| "type_name (PList xs) = py ''list''"
| "type_name (PDict kvs) = py ''dict''"

text \<open>An exception: its class and the message \<open>str(e)\<close> gives.\<close>

datatype exn = PyExn (exn_class: str) (exn_message: str)

definition attribute_error :: "pyval \<Rightarrow> str \<Rightarrow> exn" where
  "attribute_error v attr =
     PyExn (py ''AttributeError'')
       ([39] @ type_name v @ [39] @ py '' object has no attribute '' @ [39] @ attr @ [39])"

text \<open>\<open>d.get(key)\<close>: \<open>None\<close> for a missing key, and only a \<open>dict\<close> has the method.\<close>

definition lookup :: "(str \<times> pyval) list \<Rightarrow> str \<Rightarrow> pyval" where
  "lookup kvs key = (case map_of kvs key of None \<Rightarrow> PNone | Some v \<Rightarrow> v)"

fun dict_get :: "pyval \<Rightarrow> str \<Rightarrow> exn + pyval" where
  "dict_get (PDict kvs) key = Inr (lookup kvs key)"
| "dict_get v key = Inl (attribute_error v (py ''get''))"

text \<open>\<open>v.strip()\<close>: only a \<open>str\<close> has the method.\<close>

fun strip_method :: "pyval \<Rightarrow> exn + str" where
  "strip_method (PStr s) = Inr (strip s)"
| "strip_method v = Inl (attribute_error v (py ''strip''))"

section \<open>Splitting an answer into chunks\<close>

text \<open>
  \<open>chunk_text\<close> of \<open>chatbot_service_sse.py\<close>. The first line of its body marks the
  sentence ends with \<open>|\<close> and splits there.
\<close>

definition split_sentences :: "str \<Rightarrow> str list" where
  "split_sentences text =
     split 124 (replace (py ''. '') (py ''.|'') (replace (py ''! '') (py ''!|'')
       (replace (py ''? '') (py ''?|'') text)))"

text \<open>
  The loop over the pieces, from the current chunk to the chunks yielded from there on,
  the one yielded after the loop included.
\<close>

fun chunk_loop :: "int \<Rightarrow> str list \<Rightarrow> str \<Rightarrow> str list" where
  "chunk_loop chunk_size [] current_chunk =
     (if strip current_chunk \<noteq> [] then [strip current_chunk] else [])"
| "chunk_loop chunk_size (x # xs) current_chunk =
     (let sentence = strip x in
      if sentence = [] then chunk_loop chunk_size xs current_chunk
      else if current_chunk \<noteq> [] \<and>
              int (length current_chunk) + int (length sentence) > chunk_size
      then current_chunk # chunk_loop chunk_size xs (sentence @ py '' '')
      else chunk_loop chunk_size xs (current_chunk @ sentence @ py '' ''))"

text \<open>The text is \<open>None\<close> or a string; the generator's output is the list of its chunks.\<close>

definition chunk_text :: "str option \<Rightarrow> int \<Rightarrow> str list" where
  "chunk_text text chunk_size =
     (case text of
        None \<Rightarrow> []
      | Some t \<Rightarrow> if t = [] then [] else chunk_loop chunk_size (split_sentences t) [])"

text \<open>
  Vocabulary for the properties of the chunks. The sentences are the pieces the loop
  does not skip; \<open>render g\<close> is the current chunk once the sentences \<open>g\<close> have been
  appended to an empty one; \<open>emit\<close> is what a grouping of the sentences is yielded as.
\<close>

definition sentences_of :: "str \<Rightarrow> str list" where
  "sentences_of text = filter (\<lambda>s. s \<noteq> []) (map strip (split_sentences text))"

definition render :: "str list \<Rightarrow> str" where
  "render g = concat (map (\<lambda>s. s @ py '' '') g)"

definition emit :: "str list list \<Rightarrow> str list" where
  "emit gs = (if gs = [] then [] else map render (butlast gs) @ [join (py '' '') (last gs)])"

text \<open>
  Within a group every sentence but the first was appended because it fitted; between
  two groups the first sentence of the second did not fit into the first.
\<close>

definition fits :: "int \<Rightarrow> str list \<Rightarrow> bool" where
  "fits chunk_size g \<longleftrightarrow>
     (\<forall>k\<in>{1..<length g}. int (length (render (take k g))) + int (length (g ! k)) \<le> chunk_size)"

definition full :: "int \<Rightarrow> str list list \<Rightarrow> bool" where
  "full chunk_size gs \<longleftrightarrow>
     (\<forall>i\<in>{0..<length gs - 1}.
        int (length (render (gs ! i))) + int (length (hd (gs ! Suc i))) > chunk_size)"

text \<open>
  A string \<open>strip\<close> leaves as it is and that is not empty; a marked text with the marks
  turned back into spaces; and the text of the scenario in the specification.
\<close>

definition stripped :: "str \<Rightarrow> bool" where
  "stripped s \<longleftrightarrow> s \<noteq> [] \<and> \<not> isspace (hd s) \<and> \<not> isspace (last s)"


definition example_text :: str where
  "example_text = py ''This is a test. Another sentence! And one more?''"

text \<open>The loop again, on the sentences, keeping the current chunk as its list of sentences.\<close>

fun group_loop :: "int \<Rightarrow> str list \<Rightarrow> str list \<Rightarrow> str list list" where
  "group_loop chunk_size [] g = (if g = [] then [] else [g])"
| "group_loop chunk_size (s # ss) g =
     (if g \<noteq> [] \<and> int (length (render g)) + int (length s) > chunk_size
      then g # group_loop chunk_size ss [s]
      else group_loop chunk_size ss (g @ [s]))"

section \<open>State, effects and the collaborators\<close>

text \<open>
  The documents of the vector store, the filter of a search and the point of an upsert.
\<close>

record processed_query =
  normalized :: str
  keyword_query :: str

datatype field_condition = FieldCondition str str

datatype query_filter = Filter (must: "field_condition list")

record scored_point =
  point_payload :: "(str \<times> pyval) list option"
  point_score :: real

record document =
  content :: pyval
  metadata :: "(str \<times> pyval) list"
  similarity_score :: real

record point_struct =
  point_id :: str
  point_vector :: "real list"
  payload :: "(str \<times> pyval) list"

record retriever =
  collection_name :: str
  self_top_k :: int

record bot =
  bot_retriever :: retriever

text \<open>The calls made to the collaborators, in the order they are made.\<close>

datatype call =
    NewChatbot
  | BotQuery pyval pyval pyval
  | Encode "str list"
  | ProcessQuery str
  | GenerateEmbedding str
  | QueryPoints str "real list" int "query_filter option"
  | Upsert str "point_struct list"
  | Uuid4

datatype event = EvStart | EvChunk str | EvDone | EvError str


text \<open>
  The globals of the service (\<open>chatbot\<close>, \<open>is_warmed_up\<close>), the state of everything
  outside it (\<open>world\<close>), the calls made so far and the events the running generator has
  yielded so far.
\<close>

record 'w state =
  chatbot :: "bot option"
  is_warmed_up :: bool
  world :: 'w
  calls :: "call list"
  emitted :: "event list"

text \<open>
  The collaborators are not part of the sources at hand: the chatbot of \<open>main.py\<close>, the
  embedding model, the query processor, the Qdrant client and \<open>uuid\<close>. Each is a
  function of the world that returns a value or raises, and changes the world.
\<close>

record 'w env =
  new_chatbot :: "'w \<Rightarrow> (exn + bot) \<times> 'w"
  bot_query :: "pyval \<Rightarrow> pyval \<Rightarrow> pyval \<Rightarrow> 'w \<Rightarrow> (exn + str option) \<times> 'w"
  encode :: "str list \<Rightarrow> 'w \<Rightarrow> (exn + unit) \<times> 'w"
  process_query :: "str \<Rightarrow> 'w \<Rightarrow> (exn + processed_query) \<times> 'w"
  generate_embedding :: "str \<Rightarrow> 'w \<Rightarrow> (exn + real list) \<times> 'w"
  query_points ::
    "str \<Rightarrow> real list \<Rightarrow> int \<Rightarrow> query_filter option \<Rightarrow> 'w \<Rightarrow> (exn + scored_point list) \<times> 'w"
  upsert :: "str \<Rightarrow> point_struct list \<Rightarrow> 'w \<Rightarrow> (exn + unit) \<times> 'w"
  uuid4 :: "'w \<Rightarrow> str \<times> 'w"

text \<open>A piece of code: from a state to a value or an exception, and the state after.\<close>

type_synonym ('a, 'w) prog = "'w state \<Rightarrow> (exn + 'a) \<times> 'w state"

definition ret :: "'a \<Rightarrow> ('a, 'w) prog" where
  "ret x = (\<lambda>s. (Inr x, s))"

definition lift :: "exn + 'a \<Rightarrow> ('a, 'w) prog" where
  "lift r = (\<lambda>s. (r, s))"

definition and_then :: "('a, 'w) prog \<Rightarrow> ('a \<Rightarrow> ('b, 'w) prog) \<Rightarrow> ('b, 'w) prog" where
  "and_then m f =
     (\<lambda>s. case m s of (Inl e, s') \<Rightarrow> (Inl e, s') | (Inr x, s') \<Rightarrow> f x s')"

text \<open>\<open>try: m except Exception as e: h e\<close>.\<close>

definition try_except :: "('a, 'w) prog \<Rightarrow> (exn \<Rightarrow> ('a, 'w) prog) \<Rightarrow> ('a, 'w) prog" where
  "try_except m h =
     (\<lambda>s. case m s of (Inl e, s') \<Rightarrow> h e s' | (Inr x, s') \<Rightarrow> (Inr x, s'))"

text \<open>A call to a collaborator: it is logged, and its outcome is the collaborator's.\<close>

definition extern :: "call \<Rightarrow> ('w \<Rightarrow> (exn + 'a) \<times> 'w) \<Rightarrow> ('a, 'w) prog" where
  "extern c f =
     (\<lambda>s. case f (world s) of
             (r, w) \<Rightarrow> (r, s\<lparr>world := w, calls := calls s @ [c]\<rparr>))"

definition yield :: "event \<Rightarrow> (unit, 'w) prog" where
  "yield e = (\<lambda>s. (Inr (), s\<lparr>emitted := emitted s @ [e]\<rparr>))"

fun yield_all :: "event list \<Rightarrow> (unit, 'w) prog" where
  "yield_all [] = ret ()"
| "yield_all (e # es) = and_then (yield e) (\<lambda>_. yield_all es)"

section \<open>The retriever\<close>

text \<open>
  The loop of \<open>Retriever.retrieve\<close> that formats the hits. \<open>payload.pop('content', '')\<close>
  takes the content out of the payload, and what is left is the metadata; a hit whose
  payload is \<open>None\<close> has no \<open>pop\<close>.
\<close>

fun format_results :: "scored_point list \<Rightarrow> document list \<Rightarrow> exn + document list" where
  "format_results [] retrieved_docs = Inr retrieved_docs"
| "format_results (result # results) retrieved_docs =
     (case point_payload result of
        None \<Rightarrow> Inl (attribute_error PNone (py ''pop''))
      | Some p \<Rightarrow>
          format_results results
            (retrieved_docs @
             [\<lparr>content = (case map_of p (py ''content'') of None \<Rightarrow> PStr [] | Some v \<Rightarrow> v),
               metadata = filter (\<lambda>kv. fst kv \<noteq> py ''content'') p,
               similarity_score = point_score result\<rparr>]))"

definition make_filter :: "(str \<times> str) list option \<Rightarrow> query_filter option" where
  "make_filter filter_by =
     (case filter_by of
        None \<Rightarrow> None
      | Some items \<Rightarrow>
          if items = [] then None
          else Some (Filter (map (\<lambda>kv. FieldCondition (fst kv) (snd kv)) items)))"

text \<open>
  \<open>Retriever.retrieve\<close>. The query is \<open>None\<close> or a string, \<open>top_k\<close> is \<open>None\<close> or a
  number, \<open>filter_by\<close> is \<open>None\<close> or a dictionary. The \<open>tolist()\<close> of the embedding
  changes its representation only, and the printing is left out.
\<close>

definition retrieve ::
  "'w env \<Rightarrow> retriever \<Rightarrow> str option \<Rightarrow> int option \<Rightarrow> (str \<times> str) list option \<Rightarrow>
   (document list, 'w) prog" where
  "retrieve env self query top_k filter_by =
     (case query of
        None \<Rightarrow> ret []
      | Some q \<Rightarrow>
          if q = [] then ret []
          else
            (let k = (case top_k of Some n \<Rightarrow> n | None \<Rightarrow> self_top_k self) in
             try_except
               (and_then (extern (ProcessQuery q) (process_query env q)) (\<lambda>processed.
                  let normalized_query = normalized processed;
                      kw = keyword_query processed;
                      search_query = (if kw \<noteq> [] then kw else normalized_query)
                  in
                  and_then (extern (GenerateEmbedding search_query)
                              (generate_embedding env search_query)) (\<lambda>query_embedding.
                    let qf = make_filter filter_by in
                    and_then (extern (QueryPoints (collection_name self) query_embedding k qf)
                                (query_points env (collection_name self) query_embedding k qf))
                      (\<lambda>search_results. lift (format_results search_results [])))))
               (\<lambda>e. ret [])))"

text \<open>\<open>Retriever.ingest_qa_pair\<close>; question and answer are \<open>None\<close> or strings.\<close>

definition qa_content :: "str \<Rightarrow> str \<Rightarrow> str" where
  "qa_content question answer =
     py ''Question: '' @ question @ [10, 10] @ py ''Answer: '' @ answer"

definition qa_metadata :: "str \<Rightarrow> str \<Rightarrow> (str \<times> pyval) list" where
  "qa_metadata question answer =
     [(py ''document_type'', PStr (py ''Generated Q&A'')),
      (py ''company'', PStr (py ''General Knowledge'')),
      (py ''source'', PStr (py ''Gemini LLM'')),
      (py ''question'', PStr question),
      (py ''answer'', PStr answer)]"

definition qa_point :: "str \<Rightarrow> real list \<Rightarrow> str \<Rightarrow> str \<Rightarrow> point_struct" where
  "qa_point u embedding question answer =
     \<lparr>point_id = u, point_vector = embedding,
      payload = (py ''content'', PStr (qa_content question answer)) # qa_metadata question answer\<rparr>"

definition call_uuid4 :: "'w env \<Rightarrow> (str, 'w) prog" where
  "call_uuid4 env = extern Uuid4 (\<lambda>w. case uuid4 env w of (u, w') \<Rightarrow> (Inr u, w'))"

definition ingest_body :: "'w env \<Rightarrow> retriever \<Rightarrow> str \<Rightarrow> str \<Rightarrow> (bool, 'w) prog" where
  "ingest_body env self question answer =
     and_then (extern (GenerateEmbedding question) (generate_embedding env question))
       (\<lambda>embedding.
     and_then (call_uuid4 env) (\<lambda>u.
     and_then (extern (Upsert (collection_name self) [qa_point u embedding question answer])
                 (upsert env (collection_name self) [qa_point u embedding question answer]))
       (\<lambda>_. ret True)))"

definition ingest_qa_pair ::
  "'w env \<Rightarrow> retriever \<Rightarrow> str option \<Rightarrow> str option \<Rightarrow> (bool, 'w) prog" where
  "ingest_qa_pair env self question answer =
     (case question of
        None \<Rightarrow> ret False
      | Some q \<Rightarrow>
          (case answer of
             None \<Rightarrow> ret False
           | Some a \<Rightarrow>
               if q = [] \<or> a = [] then ret False
               else try_except (ingest_body env self q a) (\<lambda>e. ret False)))"

section \<open>The service\<close>

definition dummy_text :: str where
  "dummy_text = py ''This is a warm-up query to load the embedding model''"

definition initial_state :: "'w \<Rightarrow> 'w state" where
  "initial_state w =
     \<lparr>chatbot = None, is_warmed_up = False, world = w, calls = [], emitted = []\<rparr>"

definition set_is_warmed_up :: "bool \<Rightarrow> (unit, 'w) prog" where
  "set_is_warmed_up v = (\<lambda>s. (Inr (), s\<lparr>is_warmed_up := v\<rparr>))"

definition set_chatbot :: "bot \<Rightarrow> (unit, 'w) prog" where
  "set_chatbot b = (\<lambda>s. (Inr (), s\<lparr>chatbot := Some b\<rparr>))"

definition pre_warm_pipeline :: "'w env \<Rightarrow> bot \<Rightarrow> (unit, 'w) prog" where
  "pre_warm_pipeline env b =
     (\<lambda>s. if is_warmed_up s then ret () s
          else
            try_except
              (and_then (extern (Encode [dummy_text]) (encode env [dummy_text])) (\<lambda>_.
               and_then (retrieve env (bot_retriever b) (Some dummy_text) None None) (\<lambda>_.
               set_is_warmed_up True)))
              (\<lambda>e. ret ()) s)"

definition initialize_chatbot :: "'w env \<Rightarrow> (bot, 'w) prog" where
  "initialize_chatbot env =
     (\<lambda>s. case chatbot s of
             None \<Rightarrow>
               and_then (extern NewChatbot (new_chatbot env)) (\<lambda>b.
               and_then (set_chatbot b) (\<lambda>_.
               and_then (pre_warm_pipeline env b) (\<lambda>_. ret b))) s
           | Some b \<Rightarrow> ret b s)"

text \<open>
  \<open>generate_sse_response\<close>, run until it is exhausted. An event stands for the line
  \<open>data: {...}\<close> that carries it; the pause after a chunk has no effect on the state.
\<close>

definition generate_sse_response ::
  "'w env \<Rightarrow> pyval \<Rightarrow> pyval \<Rightarrow> pyval \<Rightarrow> (unit, 'w) prog" where
  "generate_sse_response env query_text user_id session_id =
     try_except
       (and_then (initialize_chatbot env) (\<lambda>b.
        and_then (yield EvStart) (\<lambda>_.
        and_then (extern (BotQuery query_text user_id session_id)
                    (bot_query env query_text user_id session_id)) (\<lambda>full_response.
        and_then (yield_all (map EvChunk (chunk_text full_response 30))) (\<lambda>_.
        yield EvDone)))))
       (\<lambda>e. yield (EvError (exn_message e)))"

text \<open>The events of one streamed request that starts in state \<open>s\<close>.\<close>

definition sse_events ::
  "'w env \<Rightarrow> pyval \<Rightarrow> pyval \<Rightarrow> pyval \<Rightarrow> 'w state \<Rightarrow> event list" where
  "sse_events env query_text user_id session_id s =
     emitted (snd (generate_sse_response env query_text user_id session_id (s\<lparr>emitted := []\<rparr>)))"

text \<open>
  The handler of \<open>POST /query\<close>. \<open>request.json\<close> gives the decoded body or raises; the
  response is the value given to \<open>jsonify\<close> and the status.
\<close>

record response =
  body :: pyval
  status :: nat

definition error_response :: "str \<Rightarrow> nat \<Rightarrow> response" where
  "error_response msg code = \<lparr>body = PDict [(py ''error'', PStr msg)], status = code\<rparr>"

definition answer_value :: "str option \<Rightarrow> pyval" where
  "answer_value r = (case r of None \<Rightarrow> PNone | Some t \<Rightarrow> PStr t)"

definition query_is_blank :: "pyval \<Rightarrow> (bool, 'w) prog" where
  "query_is_blank query_text =
     (if \<not> truthy query_text then ret True
      else and_then (lift (strip_method query_text)) (\<lambda>stripped. ret (stripped = [])))"

definition query :: "'w env \<Rightarrow> exn + pyval \<Rightarrow> (response, 'w) prog" where
  "query env request_json =
     try_except
       (and_then (lift request_json) (\<lambda>data.
        and_then (lift (dict_get data (py ''user_id''))) (\<lambda>user_id.
        and_then (lift (dict_get data (py ''session_id''))) (\<lambda>session_id.
        and_then (lift (dict_get data (py ''query''))) (\<lambda>query_text.
          if \<not> truthy user_id \<or> \<not> truthy session_id
          then ret (error_response (py ''user_id and session_id are required'') 400)
          else
            and_then (query_is_blank query_text) (\<lambda>blank.
              if blank then ret (error_response (py ''query is required'') 400)
              else
                and_then (initialize_chatbot env) (\<lambda>b.
                and_then (extern (BotQuery query_text user_id session_id)
                            (bot_query env query_text user_id session_id))
                  (\<lambda>r.
                    ret \<lparr>body = PDict [(py ''success'', PBool True),
                                       (py ''response'', answer_value r),
                                       (py ''sessionId'', session_id)],
                         status = 200\<rparr>))))))))
       (\<lambda>e. ret (error_response (exn_message e) 500))"

text \<open>
  The bodies that pass the tests of the handler, and two bodies: the one of the scenario
  in the specification, whose query is empty, and one whose \<open>user_id\<close> is a space.
\<close>

definition valid_body :: "(str \<times> pyval) list \<Rightarrow> bool" where
  "valid_body kvs \<longleftrightarrow>
     truthy (lookup kvs (py ''user_id'')) \<and> truthy (lookup kvs (py ''session_id'')) \<and>
     (case lookup kvs (py ''query'') of PStr t \<Rightarrow> strip t \<noteq> [] | _ \<Rightarrow> False)"

definition empty_query_body :: "(str \<times> pyval) list" where
  "empty_query_body =
     [(py ''user_id'', PStr (py ''u1'')), (py ''session_id'', PStr (py ''s1'')),
      (py ''query'', PStr [])]"

definition blank_user_body :: "(str \<times> pyval) list" where
  "blank_user_body =
     [(py ''user_id'', PStr (py '' '')), (py ''session_id'', PStr (py ''s1'')),
      (py ''query'', PStr (py ''hi''))]"

section \<open>The routing rules\<close>

text \<open>
  Modelled from the spec: the intent constants of \<open>IntentRouter\<close>, a class of
  \<open>routing/intent_router.py\<close>, which is not among the sources. Their values are the
  names of the intent categories, as \<open>config/settings.py\<close> has them.
\<close>

definition COMPANY_INTERNSHIP :: str where
  "COMPANY_INTERNSHIP = py ''COMPANY_INTERNSHIP''"

definition EDUCATION_CODING :: str where
  "EDUCATION_CODING = py ''EDUCATION_CODING''"

definition INTERVIEW_PREPARATION :: str where
  "INTERVIEW_PREPARATION = py ''INTERVIEW_PREPARATION''"

definition GENERAL_EDUCATION :: str where
  "GENERAL_EDUCATION = py ''GENERAL_EDUCATION''"

text \<open>\<open>RouteRules\<close> of \<open>routing/route_rules.py\<close>.\<close>

definition rag_intents :: "str list" where
  "rag_intents = [COMPANY_INTERNSHIP]"

definition external_intents :: "str list" where
  "external_intents = [EDUCATION_CODING, INTERVIEW_PREPARATION, GENERAL_EDUCATION]"

definition should_use_rag :: "str \<Rightarrow> bool" where
  "should_use_rag intent \<longleftrightarrow> intent \<in> set rag_intents"

definition should_use_external :: "str \<Rightarrow> bool" where
  "should_use_external intent \<longleftrightarrow> intent \<in> set external_intents"

definition get_pipeline_for_intent :: "str \<Rightarrow> str" where
  "get_pipeline_for_intent intent =
     (if should_use_rag intent then py ''RAG''
      else if should_use_external intent then py ''EXTERNAL''
      else py ''UNKNOWN'')"

text \<open>
  \<open>route_query\<close>, from the intent the classifier has found: the fields \<open>use_rag\<close>,
  \<open>use_external\<close> and \<open>pipeline\<close> of the dictionary it returns.
\<close>

record route =
  use_rag :: bool
  use_external :: bool
  pipeline :: str

definition route_of_intent :: "str \<Rightarrow> route" where
  "route_of_intent intent =
     \<lparr>use_rag = should_use_rag intent,
      use_external = should_use_external intent,
      pipeline = (if should_use_rag intent then py ''RAG'' else py ''EXTERNAL'')\<rparr>"

section \<open>Runs of the service and two environments\<close>

text \<open>
  What the process does after its start is a sequence of calls of the functions above;
  \<open>run\<close> gives the state after such a sequence.
\<close>

datatype action =
    PreWarm bot
  | Initialize
  | PostQuery "exn + pyval"
  | Stream pyval pyval pyval
  | Retrieve retriever "str option" "int option" "(str \<times> str) list option"
  | Ingest retriever "str option" "str option"

fun perform :: "'w env \<Rightarrow> action \<Rightarrow> 'w state \<Rightarrow> 'w state" where
  "perform env (PreWarm b) s = snd (pre_warm_pipeline env b s)"
| "perform env Initialize s = snd (initialize_chatbot env s)"
| "perform env (PostQuery request_json) s = snd (query env request_json s)"
| "perform env (Stream query_text user_id session_id) s =
     snd (generate_sse_response env query_text user_id session_id s)"
| "perform env (Retrieve self q top_k filter_by) s = snd (retrieve env self q top_k filter_by s)"
| "perform env (Ingest self question answer) s = snd (ingest_qa_pair env self question answer s)"


text \<open>A property of the state that a piece of code keeps.\<close>

definition invariant :: "('w state \<Rightarrow> bool) \<Rightarrow> ('a, 'w) prog \<Rightarrow> bool" where
  "invariant P m \<longleftrightarrow> (\<forall>s. P s \<longrightarrow> P (snd (m s)))"

text \<open>The calls a piece of code makes from a state on.\<close>

definition calls_made :: "('a, 'w) prog \<Rightarrow> 'w state \<Rightarrow> call list" where
  "calls_made m s = drop (length (calls s)) (calls (snd (m s)))"



fun is_bot_query :: "call \<Rightarrow> bool" where
  "is_bot_query (BotQuery q u sid) = True"
| "is_bot_query c = False"

text \<open>
  An environment in which every collaborator answers, and one in which every
  collaborator raises.
\<close>

definition stub_bot :: bot where
  "stub_bot = \<lparr>bot_retriever = \<lparr>collection_name = py ''internship_education_db'', self_top_k = 5\<rparr>\<rparr>"

definition stub_env :: "str option \<Rightarrow> unit env" where
  "stub_env reply =
     \<lparr>new_chatbot = (\<lambda>w. (Inr stub_bot, w)),
      bot_query = (\<lambda>q u sid w. (Inr reply, w)),
      encode = (\<lambda>texts w. (Inr (), w)),
      process_query = (\<lambda>q w. (Inr \<lparr>normalized = q, keyword_query = []\<rparr>, w)),
      generate_embedding = (\<lambda>t w. (Inr [], w)),
      query_points = (\<lambda>c v k f w. (Inr [], w)),
      upsert = (\<lambda>c ps w. (Inr (), w)),
      uuid4 = (\<lambda>w. (py ''0'', w))\<rparr>"



section \<open>Strings\<close>

lemma py_space [simp]: "py '' '' = [32]"
  by (simp add: py_def)

lemma isspace_32 [simp]: "isspace 32"
  by (simp add: isspace_def)


lemma words_of_append_space:
  "isspace c \<Longrightarrow> words_of (a @ c # b) = words_of a @ words_of b"
proof (induction a rule: words_of.induct)
  case 1
  then show ?case by simp
next
  case (2 d ds)
  show ?case
  proof (cases "isspace d")
    case True
    with 2 show ?thesis by simp
  next
    case False
    show ?thesis
    proof (cases "\<forall>x\<in>set ds. \<not> isspace x")
      case True
      then have tw: "takeWhile (\<lambda>x. \<not> isspace x) ds = ds"
        and dw: "dropWhile (\<lambda>x. \<not> isspace x) ds = []"
        by simp_all
      from True False 2(3) show ?thesis
        by (simp add: takeWhile_append2 dropWhile_append2 tw dw)
    next
      case nall: False
      then have tw: "takeWhile (\<lambda>x. \<not> isspace x) (ds @ c # b) = takeWhile (\<lambda>x. \<not> isspace x) ds"
        by (auto simp: takeWhile_append1)
      from nall have dw: "dropWhile (\<lambda>x. \<not> isspace x) (ds @ c # b)
                           = dropWhile (\<lambda>x. \<not> isspace x) ds @ c # b"
        by (auto simp: dropWhile_append1)
      from False 2(2)[OF False 2(3)] tw dw show ?thesis by simp
    qed
  qed
qed



lemma rstrip_decomp: "s = rev (dropWhile P (rev s)) @ rev (takeWhile P (rev s))"
proof -
  have "rev (takeWhile P (rev s) @ dropWhile P (rev s)) = rev (rev s)"
    by (simp only: takeWhile_dropWhile_id)
  then show ?thesis by (simp only: rev_append rev_rev_ident)
qed




lemma words_of_append_ended:
  assumes "a = [] \<or> isspace (last a)"
  shows "words_of (a @ b) = words_of a @ words_of b"
proof (cases "a = []")
  case True
  then show ?thesis by simp
next
  case False
  with assms have sp: "isspace (last a)" by simp
  from False have a: "a = butlast a @ [last a]" by simp
  have "words_of (butlast a @ last a # b) = words_of (butlast a) @ words_of b"
    by (rule words_of_append_space[OF sp])
  moreover have "words_of (butlast a @ last a # []) = words_of (butlast a) @ words_of []"
    by (rule words_of_append_space[OF sp])
  ultimately show ?thesis using a
    by (metis append.assoc append_Cons append_Nil append_Nil2 words_of.simps(1))
qed

subsection \<open>Marking and splitting\<close>




lemma split_not_Nil [simp]: "split sep s \<noteq> []"
  by (induction s) (auto split: list.splits)





subsection \<open>Stripped strings\<close>


lemma dropWhile_id_hd: "s \<noteq> [] \<Longrightarrow> \<not> P (hd s) \<Longrightarrow> dropWhile P s = s"
  by (cases s) auto

lemma strip_stripped: "stripped s \<Longrightarrow> strip s = s"
  by (simp add: stripped_def strip_def dropWhile_id_hd hd_rev)

lemma strip_stripped_spaces:
  assumes "stripped s" and "\<forall>x\<in>set ws. isspace x"
  shows "strip (s @ ws) = s"
proof -
  from assms(1) have "dropWhile isspace (s @ ws) = s @ ws"
    by (simp add: stripped_def dropWhile_id_hd)
  moreover have "dropWhile isspace (rev ws @ rev s) = dropWhile isspace (rev s)"
    by (rule dropWhile_append2) (use assms(2) in auto)
  moreover have "dropWhile isspace (rev s) = rev s"
    using assms(1) by (simp add: stripped_def dropWhile_id_hd hd_rev)
  ultimately show ?thesis by (simp add: strip_def)
qed

lemma stripped_strip:
  assumes "strip s \<noteq> []"
  shows "stripped (strip s)"
proof -
  let ?u = "dropWhile isspace s"
  let ?v = "dropWhile isspace (rev ?u)"
  from assms have v: "?v \<noteq> []" by (simp add: strip_def)
  have u: "?u \<noteq> []"
  proof
    assume e: "?u = []"
    have "?v = []" unfolding e by simp
    with v show False by simp
  qed
  have hdu: "\<not> isspace (hd ?u)" using u by (rule hd_dropWhile)
  have hdv: "\<not> isspace (hd ?v)" using v by (rule hd_dropWhile)
  have last: "last (rev ?v) = hd ?v" using v by (simp add: last_rev)
  have "?u = rev ?v @ rev (takeWhile isspace (rev ?u))"
    by (rule rstrip_decomp)
  then have "hd ?u = hd (rev ?v)" using v
    by (metis hd_append2 rev_is_Nil_conv)
  with hdu hdv last v show ?thesis
    by (simp add: stripped_def strip_def)
qed

lemma stripped_has_char: "stripped s \<Longrightarrow> \<exists>x\<in>set s. \<not> isspace x"
  by (cases s) (auto simp: stripped_def)

lemma sentences_stripped: "s \<in> set (sentences_of text) \<Longrightarrow> stripped s"
  by (auto simp: sentences_of_def stripped_strip)

subsection \<open>Groups of sentences\<close>

lemma render_Nil [simp]: "render [] = []"
  by (simp add: render_def)

lemma render_Cons [simp]: "render (s # g) = s @ 32 # render g"
  by (simp add: render_def)

lemma render_append [simp]: "render (g @ h) = render g @ render h"
  by (simp add: render_def)

lemma render_eq_Nil [simp]: "render g = [] \<longleftrightarrow> g = []"
  by (cases g) simp_all

lemma render_join: "g \<noteq> [] \<Longrightarrow> render g = join [32] g @ [32]"
  by (induction "[32 :: nat]" g rule: join.induct) simp_all

lemma join_append: "h \<noteq> [] \<Longrightarrow> join [32] (g @ h) = render g @ join [32] h"
proof (induction g)
  case Nil
  then show ?case by simp
next
  case (Cons s g)
  then obtain x xs where "g @ h = x # xs" by (cases "g @ h") auto
  with Cons show ?case by simp
qed

lemma stripped_join:
  "g \<noteq> [] \<Longrightarrow> \<forall>s\<in>set g. stripped s \<Longrightarrow> stripped (join [32] g)"
proof (induction "[32 :: nat]" g rule: join.induct)
  case 1
  then show ?case by simp
next
  case (2 x)
  then show ?case by simp
next
  case (3 x y ys)
  then have "stripped (join [32] (y # ys))" and "stripped x" by simp_all
  then show ?case by (simp add: stripped_def)
qed

lemma strip_render:
  assumes "g \<noteq> []" and "\<forall>s\<in>set g. stripped s"
  shows "strip (render g) = join [32] g"
  using strip_stripped_spaces[OF stripped_join[OF assms], of "[32]"] render_join[OF assms(1)]
  by simp

lemma group_loop_not_Nil: "g \<noteq> [] \<Longrightarrow> group_loop b ss g \<noteq> []"
  by (induction ss arbitrary: g) auto

lemma group_loop_hd: "g \<noteq> [] \<Longrightarrow> hd (hd (group_loop b ss g)) = hd g"
  by (induction ss arbitrary: g) auto

lemma emit_Cons: "gs \<noteq> [] \<Longrightarrow> emit (g # gs) = render g # emit gs"
  by (simp add: emit_def)

lemma emit_single [simp]: "emit [g] = [join [32] g]"
  by (simp add: emit_def)

lemma emit_Nil [simp]: "emit [] = []"
  by (simp add: emit_def)

lemma chunk_loop_group:
  "\<forall>s\<in>set g. stripped s \<Longrightarrow>
   chunk_loop b xs (render g) = emit (group_loop b (filter (\<lambda>s. s \<noteq> []) (map strip xs)) g)"
proof (induction xs arbitrary: g)
  case Nil
  show ?case
  proof (cases "g = []")
    case True
    then show ?thesis by (simp add: strip_def)
  next
    case False
    from stripped_join[OF False Nil] have "join [32] g \<noteq> []"
      by (simp add: stripped_def)
    with False Nil show ?thesis by (simp add: strip_render)
  qed
next
  case (Cons x xs)
  show ?case
  proof (cases "strip x = []")
    case True
    with Cons show ?thesis by simp
  next
    case ne: False
    then have sx: "stripped (strip x)" by (rule stripped_strip)
    show ?thesis
    proof (cases "g \<noteq> [] \<and> int (length (render g)) + int (length (strip x)) > b")
      case True
      have "chunk_loop b (x # xs) (render g) = render g # chunk_loop b xs (render [strip x])"
        using True ne by (simp add: Let_def)
      also have "chunk_loop b xs (render [strip x])
                 = emit (group_loop b (filter (\<lambda>s. s \<noteq> []) (map strip xs)) [strip x])"
        using Cons.IH[of "[strip x]"] sx by simp
      finally show ?thesis
        using True ne by (simp add: emit_Cons group_loop_not_Nil)
    next
      case False
      have "chunk_loop b (x # xs) (render g) = chunk_loop b xs (render (g @ [strip x]))"
        using False ne by (auto simp add: Let_def)
      also have "\<dots> = emit (group_loop b (filter (\<lambda>s. s \<noteq> []) (map strip xs)) (g @ [strip x]))"
        using Cons.IH[of "g @ [strip x]"] Cons.prems sx by simp
      finally show ?thesis using False ne by auto
    qed
  qed
qed

lemma split_sentences_Nil: "split_sentences [] = [[]]"
  by (simp add: split_sentences_def replace.simps py_def)

lemma chunk_text_group:
  "chunk_text (Some text) b = emit (group_loop b (sentences_of text) [])"
proof (cases "text = []")
  case True
  then show ?thesis
    by (simp add: chunk_text_def sentences_of_def split_sentences_Nil strip_def)
next
  case False
  then show ?thesis
    using chunk_loop_group[of "[]" b "split_sentences text"]
    by (simp add: chunk_text_def sentences_of_def)
qed

lemma concat_group_loop: "concat (group_loop b ss g) = g @ ss"
  by (induction ss arbitrary: g) auto

lemma group_loop_no_empty: "[] \<notin> set (group_loop b ss g)"
  by (induction ss arbitrary: g) auto

lemma fits_single [simp]: "fits b [s]"
  by (simp add: fits_def)

lemma fits_Nil [simp]: "fits b []"
  by (simp add: fits_def)

lemma fits_snoc:
  assumes "fits b g" and "g = [] \<or> int (length (render g)) + int (length s) \<le> b"
  shows "fits b (g @ [s])"
  unfolding fits_def
proof
  fix k assume k: "k \<in> {1..<length (g @ [s])}"
  show "int (length (render (take k (g @ [s])))) + int (length ((g @ [s]) ! k)) \<le> b"
  proof (cases "k < length g")
    case True
    with k assms(1) show ?thesis by (simp add: fits_def nth_append)
  next
    case False
    with k have "k = length g" by simp
    with k assms(2) show ?thesis by auto
  qed
qed

lemma group_loop_fits: "fits b g \<Longrightarrow> \<forall>h\<in>set (group_loop b ss g). fits b h"
proof (induction ss arbitrary: g)
  case Nil
  then show ?case by simp
next
  case (Cons s ss)
  show ?case
  proof (cases "g \<noteq> [] \<and> int (length (render g)) + int (length s) > b")
    case True
    with Cons.prems Cons.IH[of "[s]"] show ?thesis by simp
  next
    case False
    then have "fits b (g @ [s])"
      using fits_snoc[OF Cons.prems, of s] by auto
    from Cons.IH[OF this] False show ?thesis by auto
  qed
qed

lemma full_Cons:
  assumes "full b gs" and "gs \<noteq> []" and "int (length (render g)) + int (length (hd (hd gs))) > b"
  shows "full b (g # gs)"
  unfolding full_def
proof
  fix i assume i: "i \<in> {0..<length (g # gs) - 1}"
  show "b < int (length (render ((g # gs) ! i))) + int (length (hd ((g # gs) ! Suc i)))"
  proof (cases i)
    case 0
    with assms(2,3) show ?thesis by (simp add: hd_conv_nth)
  next
    case (Suc j)
    with i have "j \<in> {0..<length gs - 1}" by auto
    with assms(1) Suc show ?thesis by (simp add: full_def)
  qed
qed

lemma group_loop_full: "full b (group_loop b ss g)"
proof (induction ss arbitrary: g)
  case Nil
  then show ?case by (simp add: full_def)
next
  case (Cons s ss)
  show ?case
  proof (cases "g \<noteq> [] \<and> int (length (render g)) + int (length s) > b")
    case True
    have "full b (g # group_loop b ss [s])"
      by (rule full_Cons[OF Cons.IH]) (use True in \<open>simp_all add: group_loop_not_Nil group_loop_hd\<close>)
    with True show ?thesis by simp
  next
    case False
    with Cons.IH[of "g @ [s]"] show ?thesis by auto
  qed
qed


lemma strip_emit:
  assumes "[] \<notin> set gs" and "\<forall>g\<in>set gs. \<forall>s\<in>set g. stripped s" and "c \<in> set (emit gs)"
  shows "\<exists>g\<in>set gs. strip c = join [32] g"
proof -
  from assms(3) have gs: "gs \<noteq> []" by (auto simp: emit_def)
  from assms(3) gs have "c \<in> render ` set (butlast gs) \<or> c = join [32] (last gs)"
    by (auto simp: emit_def)
  then show ?thesis
  proof
    assume "c \<in> render ` set (butlast gs)"
    then obtain g where g: "g \<in> set (butlast gs)" "c = render g" by auto
    then have "g \<in> set gs" by (auto dest: in_set_butlastD)
    with assms(1,2) g show ?thesis by (auto intro!: bexI[of _ g] strip_render)
  next
    assume c: "c = join [32] (last gs)"
    have l: "last gs \<in> set gs" using gs by simp
    with assms(1,2) have "stripped (join [32] (last gs))"
      by (auto intro!: stripped_join)
    with c l show ?thesis by (auto simp: strip_stripped)
  qed
qed

lemma fits_budget:
  assumes "fits b g" and "g \<noteq> []"
  shows "int (length (join [32] g)) \<le> b \<or> (\<exists>s. g = [s])"
proof (cases "length g = 1")
  case True
  then show ?thesis by (cases g) auto
next
  case False
  with assms(2) have "2 \<le> length g"
    by (cases g) (auto simp: Suc_le_eq)
  then have k: "length g - 1 \<in> {1..<length g}"
    by auto
  from assms(2) have g: "g = butlast g @ [last g]" by simp
  have "join [32] g = render (butlast g) @ last g"
    using join_append[of "[last g]" "butlast g"] g by simp
  moreover have "take (length g - 1) g = butlast g" by (simp add: butlast_conv_take)
  moreover have "g ! (length g - 1) = last g" using assms(2) by (simp add: last_conv_nth)
  ultimately show ?thesis
    using assms(1) k unfolding fits_def by (metis length_append of_nat_add)
qed

lemma set_strip: "set (strip s) \<subseteq> set s"
proof -
  have "set (dropWhile P xs) \<subseteq> set xs" for P and xs :: str
    by (auto dest: set_dropWhileD)
  then show ?thesis unfolding strip_def
    by (metis (no_types, lifting) set_rev subset_trans)
qed

lemma chunk_text_groups:
  "\<exists>gs. concat gs = sentences_of text \<and> [] \<notin> set gs \<and>
        chunk_text (Some text) chunk_size = emit gs \<and>
        (\<forall>g\<in>set gs. fits chunk_size g) \<and> full chunk_size gs"
proof -
  let ?gs = "group_loop chunk_size (sentences_of text) []"
  have "concat ?gs = sentences_of text" by (simp add: concat_group_loop)
  moreover have "[] \<notin> set ?gs" by (rule group_loop_no_empty)
  moreover have "chunk_text (Some text) chunk_size = emit ?gs" by (rule chunk_text_group)
  moreover have "\<forall>g\<in>set ?gs. fits chunk_size g" by (rule group_loop_fits) simp
  moreover have "full chunk_size ?gs" by (rule group_loop_full)
  ultimately show ?thesis by blast
qed

lemma groups_stripped:
  assumes "concat gs = sentences_of text"
  shows "\<forall>g\<in>set gs. \<forall>s\<in>set g. stripped s"
proof (intro ballI)
  fix g s assume "g \<in> set gs" "s \<in> set g"
  then have "s \<in> set (concat gs)" by auto
  with assms show "stripped s" by (simp add: sentences_stripped)
qed


lemma chunk_text_strip_chunk:
  assumes "c \<in> set (chunk_text (Some text) chunk_size)"
  shows "stripped (strip c) \<and>
         (int (length (strip c)) \<le> chunk_size \<or> strip c \<in> set (sentences_of text))"
proof -
  obtain gs where gs: "concat gs = sentences_of text" "[] \<notin> set gs"
    "chunk_text (Some text) chunk_size = emit gs" "\<forall>g\<in>set gs. fits chunk_size g"
    using chunk_text_groups by blast
  from groups_stripped[OF gs(1)] have st: "\<forall>g\<in>set gs. \<forall>s\<in>set g. stripped s" .
  from strip_emit[OF gs(2) st] assms gs(3)
  obtain g where g: "g \<in> set gs" "strip c = join [32] g" by auto
  with gs(2) have ne: "g \<noteq> []" by auto
  from g(1) st have "\<forall>s\<in>set g. stripped s" by simp
  from stripped_join[OF ne this] g(2) have "stripped (strip c)" by simp
  moreover from fits_budget[OF _ ne, of chunk_size] gs(4) g(1)
  have "int (length (join [32] g)) \<le> chunk_size \<or> (\<exists>s. g = [s])" by simp
  then have "int (length (strip c)) \<le> chunk_size \<or> strip c \<in> set (sentences_of text)"
  proof
    assume "int (length (join [32] g)) \<le> chunk_size"
    with g(2) show ?thesis by simp
  next
    assume "\<exists>s. g = [s]"
    then obtain s where s: "g = [s]" by auto
    with g(1) have "s \<in> set (concat gs)" by force
    with gs(1) s g(2) show ?thesis by simp
  qed
  ultimately show ?thesis by simp
qed

lemma chunk_has_char:
  assumes "c \<in> set (chunk_text text chunk_size)"
  shows "\<exists>x\<in>set c. \<not> isspace x"
proof (cases "text")
  case None
  with assms show ?thesis by (simp add: chunk_text_def)
next
  case (Some t)
  with assms chunk_text_strip_chunk[of c t chunk_size] have "stripped (strip c)" by simp
  then obtain x where "x \<in> set (strip c)" "\<not> isspace x"
    using stripped_has_char by blast
  with set_strip[of c] show ?thesis by auto
qed


lemmas chunk_eval =
  chunk_text_def split_sentences_def replace.simps py_def isspace_def strip_def
  sentences_of_def example_text_def

lemma chunk_text_example:
  "chunk_text (Some example_text) 30 =
     [py ''This is a test. '', py ''Another sentence! '', py ''And one more?'']"
  by (simp add: chunk_eval)





section \<open>Effects\<close>

lemmas prog_defs =
  ret_def lift_def and_then_def try_except_def extern_def yield_def
  set_is_warmed_up_def set_chatbot_def call_uuid4_def

lemma invariant_ret [intro!]: "invariant P (ret x)"
  by (simp add: invariant_def ret_def)

lemma invariant_lift [intro!]: "invariant P (lift r)"
  by (simp add: invariant_def lift_def)

lemma invariant_and_then [intro!]:
  "invariant P m \<Longrightarrow> (\<And>x. invariant P (f x)) \<Longrightarrow> invariant P (and_then m f)"
  by (auto simp: invariant_def and_then_def split: prod.splits sum.splits)

lemma invariant_try_except [intro!]:
  "invariant P m \<Longrightarrow> (\<And>e. invariant P (h e)) \<Longrightarrow> invariant P (try_except m h)"
  by (auto simp: invariant_def try_except_def split: prod.splits sum.splits)

lemma invariant_extern:
  "(\<And>s w. P s \<Longrightarrow> P (s\<lparr>world := w, calls := calls s @ [c]\<rparr>)) \<Longrightarrow> invariant P (extern c f)"
  by (auto simp: invariant_def extern_def split: prod.splits)


lemma invariant_if:
  "invariant P m \<Longrightarrow> invariant P n \<Longrightarrow> invariant P (\<lambda>s. if c s then m s else n s)"
  by (simp add: invariant_def)

lemma invariant_case_option:
  "invariant P n \<Longrightarrow> (\<And>b. invariant P (f b)) \<Longrightarrow>
   invariant P (\<lambda>s. case g s of None \<Rightarrow> n s | Some b \<Rightarrow> f b s)"
  by (simp add: invariant_def split: option.splits)

lemma invariant_retrieve:
  assumes "\<And>s w c. \<not> is_bot_query c \<Longrightarrow> P s \<Longrightarrow> P (s\<lparr>world := w, calls := calls s @ [c]\<rparr>)"
  shows "invariant P (retrieve env self q k f)"
  unfolding retrieve_def Let_def
  by (auto split: option.splits intro!: invariant_extern assms)

lemma invariant_pre_warm_pipeline:
  assumes "\<And>s w c. \<not> is_bot_query c \<Longrightarrow> P s \<Longrightarrow> P (s\<lparr>world := w, calls := calls s @ [c]\<rparr>)"
    and "\<And>s. P s \<Longrightarrow> P (s\<lparr>is_warmed_up := True\<rparr>)"
  shows "invariant P (pre_warm_pipeline env b)"
proof -
  have "invariant P (set_is_warmed_up True)"
    by (simp add: invariant_def set_is_warmed_up_def assms(2))
  then show ?thesis
    unfolding pre_warm_pipeline_def
    by (intro invariant_if invariant_try_except invariant_and_then invariant_ret
          invariant_extern invariant_retrieve assms(1)) simp_all
qed

lemma invariant_initialize_chatbot:
  assumes "\<And>s w c. \<not> is_bot_query c \<Longrightarrow> P s \<Longrightarrow> P (s\<lparr>world := w, calls := calls s @ [c]\<rparr>)"
    and "\<And>s. P s \<Longrightarrow> P (s\<lparr>is_warmed_up := True\<rparr>)"
    and "\<And>s b. P s \<Longrightarrow> P (s\<lparr>chatbot := Some b\<rparr>)"
  shows "invariant P (initialize_chatbot env)"
proof -
  have "invariant P (set_chatbot b)" for b
    by (simp add: invariant_def set_chatbot_def assms(3))
  then show ?thesis
    unfolding initialize_chatbot_def
    by (intro invariant_case_option invariant_and_then invariant_ret
          invariant_extern invariant_pre_warm_pipeline assms(1,2)) simp_all
qed

lemma emitted_initialize_chatbot:
  "emitted (snd (initialize_chatbot env s)) = emitted s"
proof -
  have "invariant (\<lambda>s'. emitted s' = emitted s) (initialize_chatbot env)"
    by (rule invariant_initialize_chatbot) simp_all
  then show ?thesis by (simp add: invariant_def)
qed

lemma yield_all_eq: "yield_all es s = (Inr (), s\<lparr>emitted := emitted s @ es\<rparr>)"
  by (induction es arbitrary: s) (simp_all add: ret_def and_then_def yield_def)

lemma sse_events_eq:
  "sse_events env q u sid s =
     (case initialize_chatbot env (s\<lparr>emitted := []\<rparr>) of
        (Inl e, s1) \<Rightarrow> [EvError (exn_message e)]
      | (Inr b, s1) \<Rightarrow>
          (case bot_query env q u sid (world s1) of
             (Inl e, w) \<Rightarrow> [EvStart, EvError (exn_message e)]
           | (Inr answer, w) \<Rightarrow> EvStart # map EvChunk (chunk_text answer 30) @ [EvDone]))"
proof -
  obtain r s1 where i: "initialize_chatbot env (s\<lparr>emitted := []\<rparr>) = (r, s1)"
    by (cases "initialize_chatbot env (s\<lparr>emitted := []\<rparr>)")
  from emitted_initialize_chatbot[of env "s\<lparr>emitted := []\<rparr>"] i
  have e: "emitted s1 = []" by simp
  show ?thesis
    unfolding sse_events_def generate_sse_response_def
    using i e
    by (auto simp: try_except_def and_then_def yield_def extern_def yield_all_eq
             split: prod.splits sum.splits)
qed

section \<open>The chunks of an answer\<close>




text \<open>
  Claim C9. For every text and every budget, each chunk \<open>chunk_text\<close> yields has a
  character that is not whitespace, and so has the content of each chunk event of a
  streamed request.
\<close>

theorem chunks_not_blank:
  "(\<forall>c\<in>set (chunk_text text chunk_size). \<exists>x\<in>set c. \<not> isspace x) \<and>
   (\<forall>e\<in>set (sse_events env q u sid s). \<forall>c. e = EvChunk c \<longrightarrow> (\<exists>x\<in>set c. \<not> isspace x))"
proof
  show "\<forall>c\<in>set (chunk_text text chunk_size). \<exists>x\<in>set c. \<not> isspace x"
    using chunk_has_char by blast
  show "\<forall>e\<in>set (sse_events env q u sid s). \<forall>c. e = EvChunk c \<longrightarrow> (\<exists>x\<in>set c. \<not> isspace x)"
  proof (intro ballI allI impI)
    fix e c assume e: "e \<in> set (sse_events env q u sid s)" "e = EvChunk c"
    obtain r s1 where i: "initialize_chatbot env (s\<lparr>emitted := []\<rparr>) = (r, s1)"
      by (cases "initialize_chatbot env (s\<lparr>emitted := []\<rparr>)")
    obtain r2 w where b: "bot_query env q u sid (world s1) = (r2, w)"
      by (cases "bot_query env q u sid (world s1)")
    from e i b obtain answer where "c \<in> set (chunk_text answer 30)"
      unfolding sse_events_eq by (cases r; cases r2) auto
    then show "\<exists>x\<in>set c. \<not> isspace x" by (rule chunk_has_char)
  qed
qed

lemma initialize_stub:
  "initialize_chatbot (stub_env reply) (initial_state ()) =
     (Inr stub_bot,
      \<lparr>chatbot = Some stub_bot, is_warmed_up = True, world = (),
       calls = [NewChatbot, Encode [dummy_text], ProcessQuery dummy_text,
                GenerateEmbedding dummy_text,
                QueryPoints (py ''internship_education_db'') [] 5 None],
       emitted = []\<rparr>)"
  by (simp add: initialize_chatbot_def initial_state_def stub_env_def stub_bot_def
        pre_warm_pipeline_def retrieve_def make_filter_def prog_defs dummy_text_def py_def)

lemma sse_events_stub:
  "sse_events (stub_env reply) q u sid (initial_state ()) =
     EvStart # map EvChunk (chunk_text reply 30) @ [EvDone]"
  unfolding sse_events_eq
  using initialize_stub[of reply]
  by (simp add: initial_state_def) (simp add: stub_env_def)

text \<open>The first chunk of the scenario's text, and the event that carries it.\<close>

theorem chunks_not_blank_witness:
  "py ''This is a test. '' \<in> set (chunk_text (Some example_text) 30) \<and>
   (\<exists>x\<in>set (py ''This is a test. ''). \<not> isspace x) \<and>
   EvChunk (py ''This is a test. '') \<in>
     set (sse_events (stub_env (Some example_text)) (PStr (py ''hi'')) (PStr (py ''u1''))
            (PStr (py ''s1'')) (initial_state ()))"
proof -
  note t = chunks_not_blank[of "Some example_text" 30 "stub_env (Some example_text)"
      "PStr (py ''hi'')" "PStr (py ''u1'')" "PStr (py ''s1'')" "initial_state ()"]
  have a: "py ''This is a test. '' \<in> set (chunk_text (Some example_text) 30)"
    by (simp add: chunk_text_example)
  have b: "EvChunk (py ''This is a test. '') \<in>
     set (sse_events (stub_env (Some example_text)) (PStr (py ''hi'')) (PStr (py ''u1''))
            (PStr (py ''s1'')) (initial_state ()))"
    by (simp add: sse_events_stub chunk_text_example)
  from t b have "\<exists>x\<in>set (py ''This is a test. ''). \<not> isspace x" by blast
  with a b show ?thesis by blast
qed

section \<open>The events of a streamed request\<close>




text \<open>
  Claim C10. When the chatbot is there or can be built and the orchestrator returns
  \<open>None\<close> or the empty string, the events of the request are the start event and the done
  event.
\<close>

theorem empty_answer_start_done:
  assumes "initialize_chatbot env (s\<lparr>emitted := []\<rparr>) = (Inr b, s1)"
    and "bot_query env q u sid (world s1) = (Inr answer, w)"
    and "answer = None \<or> answer = Some []"
  shows "sse_events env q u sid s = [EvStart, EvDone]"
  unfolding sse_events_eq using assms by (auto simp: chunk_text_def)

text \<open>An orchestrator that answers \<open>None\<close>, and one that answers the empty string.\<close>

theorem empty_answer_start_done_witness:
  "sse_events (stub_env None) (PStr (py ''hi'')) (PStr (py ''u1'')) (PStr (py ''s1''))
     (initial_state ()) = [EvStart, EvDone] \<and>
   sse_events (stub_env (Some [])) (PStr (py ''hi'')) (PStr (py ''u1'')) (PStr (py ''s1''))
     (initial_state ()) = [EvStart, EvDone]"
proof
  have i: "initial_state ()\<lparr>emitted := []\<rparr> = initial_state ()"
    by (simp add: initial_state_def)
  show "sse_events (stub_env None) (PStr (py ''hi'')) (PStr (py ''u1'')) (PStr (py ''s1''))
     (initial_state ()) = [EvStart, EvDone]"
    by (rule empty_answer_start_done[where answer = None and w = "()"])
       (simp_all add: i initialize_stub, simp add: stub_env_def)
  show "sse_events (stub_env (Some [])) (PStr (py ''hi'')) (PStr (py ''u1'')) (PStr (py ''s1''))
     (initial_state ()) = [EvStart, EvDone]"
    by (rule empty_answer_start_done[where answer = "Some []" and w = "()"])
       (simp_all add: i initialize_stub, simp add: stub_env_def)
qed

section \<open>The retriever\<close>

lemma retrieve_falsy:
  "retrieve env self None top_k filter_by s = (Inr [], s)"
  "retrieve env self (Some []) top_k filter_by s = (Inr [], s)"
  by (simp_all add: retrieve_def ret_def)






text \<open>
  Claim C8. For the query \<open>None\<close> and for the empty string, whatever \<open>top_k\<close> and the
  filter are, \<open>Retriever.retrieve\<close> returns the empty list and leaves the state as it
  was: no call to the query processor, the embedding generator or the client is made.
\<close>

theorem retrieve_falsy_query:
  "retrieve env self None top_k filter_by s = (Inr [], s) \<and>
   retrieve env self (Some []) top_k filter_by s = (Inr [], s) \<and>
   calls_made (retrieve env self None top_k filter_by) s = [] \<and>
   calls_made (retrieve env self (Some []) top_k filter_by) s = []"
  by (simp add: retrieve_falsy calls_made_def)

section \<open>Ingesting a question and its answer\<close>













section \<open>The warm-up\<close>



lemma retrieve_keeps_flag:
  "is_warmed_up (snd (retrieve env self q k f s)) = is_warmed_up s"
proof -
  have "invariant (\<lambda>s'. is_warmed_up s' = is_warmed_up s) (retrieve env self q k f)"
    by (rule invariant_retrieve) simp
  then show ?thesis by (simp add: invariant_def)
qed









subsection \<open>The flag is never reset\<close>






lemma cold_perform:
  assumes "\<not> is_warmed_up s" and "is_warmed_up (perform env a s)"
  shows "a = Initialize \<or> (\<exists>b. a = PreWarm b) \<or> (\<exists>rj. a = PostQuery rj) \<or>
         (\<exists>q u sid. a = Stream q u sid)"
proof (cases a)
  case (Retrieve self q k f)
  with assms show ?thesis by (simp add: retrieve_keeps_flag)
next
  case (Ingest self question answer)
  have "invariant (\<lambda>s'. \<not> is_warmed_up s') (ingest_qa_pair env self question answer)"
    unfolding ingest_qa_pair_def ingest_body_def call_uuid4_def
    by (auto split: option.splits intro!: invariant_extern)
  with assms Ingest show ?thesis by (simp add: invariant_def)
qed auto

lemma pre_warm_stub:
  "pre_warm_pipeline (stub_env reply) stub_bot (initial_state ()) =
     (Inr (),
      \<lparr>chatbot = None, is_warmed_up = True, world = (),
       calls = [Encode [dummy_text], ProcessQuery dummy_text, GenerateEmbedding dummy_text,
                QueryPoints (py ''internship_education_db'') [] 5 None],
       emitted = []\<rparr>)"
  by (simp add: initial_state_def stub_env_def stub_bot_def
        pre_warm_pipeline_def retrieve_def make_filter_def prog_defs dummy_text_def py_def)





section \<open>The handler of POST /query\<close>

lemma query_request_raises:
  "query env (Inl e) s = (Inr (error_response (exn_message e) 500), s)"
  by (simp add: query_def prog_defs)

lemma query_not_dict:
  assumes "\<forall>kvs. data \<noteq> PDict kvs"
  shows "query env (Inr data) s =
           (Inr (error_response (exn_message (attribute_error data (py ''get''))) 500), s)"
  using assms by (cases data) (simp_all add: query_def prog_defs)

lemma query_ids_required:
  assumes "\<not> truthy (lookup kvs (py ''user_id'')) \<or> \<not> truthy (lookup kvs (py ''session_id''))"
  shows "query env (Inr (PDict kvs)) s =
           (Inr (error_response (py ''user_id and session_id are required'') 400), s)"
  using assms by (auto simp: query_def prog_defs)

lemma query_required:
  assumes "truthy (lookup kvs (py ''user_id''))" and "truthy (lookup kvs (py ''session_id''))"
    and "\<not> truthy (lookup kvs (py ''query'')) \<or>
         (\<exists>t. lookup kvs (py ''query'') = PStr t \<and> strip t = [])"
  shows "query env (Inr (PDict kvs)) s = (Inr (error_response (py ''query is required'') 400), s)"
  using assms by (auto simp: query_def query_is_blank_def prog_defs)

lemma query_not_str:
  assumes "truthy (lookup kvs (py ''user_id''))" and "truthy (lookup kvs (py ''session_id''))"
    and "truthy (lookup kvs (py ''query''))" and "\<forall>t. lookup kvs (py ''query'') \<noteq> PStr t"
  shows "query env (Inr (PDict kvs)) s =
           (Inr (error_response
                   (exn_message (attribute_error (lookup kvs (py ''query'')) (py ''strip''))) 500), s)"
  using assms
  by (cases "lookup kvs (py ''query'')") (simp_all add: query_def query_is_blank_def prog_defs)

lemma query_valid:
  assumes "truthy (lookup kvs (py ''user_id''))" and "truthy (lookup kvs (py ''session_id''))"
    and "lookup kvs (py ''query'') = PStr t" and "strip t \<noteq> []"
  shows "query env (Inr (PDict kvs)) s =
     (case initialize_chatbot env s of
        (Inl e, s1) \<Rightarrow> (Inr (error_response (exn_message e) 500), s1)
      | (Inr b, s1) \<Rightarrow>
          (case bot_query env (PStr t) (lookup kvs (py ''user_id''))
                  (lookup kvs (py ''session_id'')) (world s1) of
             (Inl e, w) \<Rightarrow>
               (Inr (error_response (exn_message e) 500),
                s1\<lparr>world := w,
                    calls := calls s1 @ [BotQuery (PStr t) (lookup kvs (py ''user_id''))
                                           (lookup kvs (py ''session_id''))]\<rparr>)
           | (Inr r, w) \<Rightarrow>
               (Inr \<lparr>body = PDict [(py ''success'', PBool True),
                                   (py ''response'', answer_value r),
                                   (py ''sessionId'', lookup kvs (py ''session_id''))],
                      status = 200\<rparr>,
                s1\<lparr>world := w,
                    calls := calls s1 @ [BotQuery (PStr t) (lookup kvs (py ''user_id''))
                                           (lookup kvs (py ''session_id''))]\<rparr>)))"
proof -
  from assms(3,4) have "t \<noteq> []" by (auto simp: strip_def)
  with assms show ?thesis
    by (simp add: query_def query_is_blank_def prog_defs split: prod.splits sum.splits)
qed

lemma query_invalid_unchanged:
  assumes "\<not> (\<exists>kvs. rj = Inr (PDict kvs) \<and> valid_body kvs)"
  shows "\<exists>r. query env rj s = (Inr r, s) \<and> (status r = 400 \<or> status r = 500) \<and>
             (\<exists>msg. body r = PDict [(py ''error'', PStr msg)])"
proof (cases rj)
  case (Inl e)
  then show ?thesis by (simp add: query_request_raises error_response_def)
next
  case (Inr data)
  show ?thesis
  proof (cases "\<exists>kvs. data = PDict kvs")
    case False
    with Inr show ?thesis by (simp add: query_not_dict error_response_def)
  next
    case True
    then obtain kvs where d: "data = PDict kvs" by auto
    with assms Inr have nv: "\<not> valid_body kvs" by simp
    show ?thesis
    proof (cases "\<not> truthy (lookup kvs (py ''user_id'')) \<or> \<not> truthy (lookup kvs (py ''session_id''))")
      case True
      with Inr d show ?thesis by (simp add: query_ids_required error_response_def)
    next
      case ids: False
      show ?thesis
      proof (cases "truthy (lookup kvs (py ''query''))")
        case False
        with ids Inr d show ?thesis by (simp add: query_required error_response_def)
      next
        case True
        show ?thesis
        proof (cases "\<exists>t. lookup kvs (py ''query'') = PStr t")
          case False
          with ids True Inr d show ?thesis by (simp add: query_not_str error_response_def)
        next
          case str: True
          then obtain t where t: "lookup kvs (py ''query'') = PStr t" by auto
          with nv ids have "strip t = []" by (simp add: valid_body_def)
          with t ids Inr d show ?thesis by (simp add: query_required error_response_def)
        qed
      qed
    qed
  qed
qed

lemma query_valid_status:
  assumes "valid_body kvs"
  shows "\<exists>r. fst (query env (Inr (PDict kvs)) s) = Inr r \<and>
             (status r = 200 \<or> status r = 500) \<and>
             (status r \<noteq> 200 \<longrightarrow> (\<exists>msg. body r = PDict [(py ''error'', PStr msg)]))"
proof -
  from assms obtain t where t: "lookup kvs (py ''query'') = PStr t" "strip t \<noteq> []"
    and ids: "truthy (lookup kvs (py ''user_id''))" "truthy (lookup kvs (py ''session_id''))"
    by (auto simp: valid_body_def split: pyval.splits)
  show ?thesis
    by (auto simp: query_valid[OF ids t] error_response_def split: prod.splits sum.splits)
qed

lemma query_valid_body:
  assumes "valid_body kvs"
  shows "query env (Inr (PDict kvs)) s =
     (case initialize_chatbot env s of
        (Inl e, s1) \<Rightarrow> (Inr (error_response (exn_message e) 500), s1)
      | (Inr b, s1) \<Rightarrow>
          (case bot_query env (lookup kvs (py ''query'')) (lookup kvs (py ''user_id''))
                  (lookup kvs (py ''session_id'')) (world s1) of
             (Inl e, w) \<Rightarrow>
               (Inr (error_response (exn_message e) 500),
                s1\<lparr>world := w,
                    calls := calls s1 @ [BotQuery (lookup kvs (py ''query''))
                                           (lookup kvs (py ''user_id''))
                                           (lookup kvs (py ''session_id''))]\<rparr>)
           | (Inr r, w) \<Rightarrow>
               (Inr \<lparr>body = PDict [(py ''success'', PBool True),
                                   (py ''response'', answer_value r),
                                   (py ''sessionId'', lookup kvs (py ''session_id''))],
                      status = 200\<rparr>,
                s1\<lparr>world := w,
                    calls := calls s1 @ [BotQuery (lookup kvs (py ''query''))
                                           (lookup kvs (py ''user_id''))
                                           (lookup kvs (py ''session_id''))]\<rparr>)))"
proof -
  from assms obtain t where t: "lookup kvs (py ''query'') = PStr t" "strip t \<noteq> []"
    and ids: "truthy (lookup kvs (py ''user_id''))" "truthy (lookup kvs (py ''session_id''))"
    by (auto simp: valid_body_def split: pyval.splits)
  show ?thesis
    unfolding query_valid[OF ids t] t(1) by (rule refl)
qed

lemma query_total:
  "\<exists>r. fst (query env rj s) = Inr r \<and>
       (status r = 200 \<or> status r = 400 \<or> status r = 500) \<and>
       (status r \<noteq> 200 \<longrightarrow> (\<exists>msg. body r = PDict [(py ''error'', PStr msg)]))"
proof (cases "\<exists>kvs. rj = Inr (PDict kvs) \<and> valid_body kvs")
  case True
  then obtain kvs where "rj = Inr (PDict kvs)" "valid_body kvs" by auto
  with query_valid_status[of kvs env s] show ?thesis by auto
next
  case False
  from query_invalid_unchanged[OF this, of env s] show ?thesis by auto
qed

lemma query_invalid_state:
  assumes "\<not> (\<exists>kvs. rj = Inr (PDict kvs) \<and> valid_body kvs)"
  shows "snd (query env rj s) = s"
  using query_invalid_unchanged[OF assms, of env s] by auto

text \<open>
  Claim C5, as amended. The handler never raises: it answers 200, 400 or 500, and every
  answer but 200 has an error field. For a body that is a JSON object it answers 400,
  and leaves the state as it was, when \<open>user_id\<close> or \<open>session_id\<close> is missing or falsy
  (\<open>null\<close>, the empty string, zero and the like), and when both are there and \<open>query\<close>
  is missing, falsy or a string of whitespace only. A request reaches the chatbot only if
  the body is an object whose \<open>user_id\<close> and \<open>session_id\<close> are truthy and whose \<open>query\<close>
  is a string with a character that is not whitespace: every other request leaves the
  state as it was. Such a request is answered 500 with the message of the exception when
  the initialisation of the chatbot or the orchestrator raises, and 200 with the
  response otherwise.
\<close>

theorem query_handler_outcome:
  "(\<exists>r. fst (query env rj s) = Inr r \<and>
        (status r = 200 \<or> status r = 400 \<or> status r = 500) \<and>
        (status r \<noteq> 200 \<longrightarrow> (\<exists>msg. body r = PDict [(py ''error'', PStr msg)]))) \<and>
   (\<forall>kvs. rj = Inr (PDict kvs) \<and>
          (\<not> truthy (lookup kvs (py ''user_id'')) \<or> \<not> truthy (lookup kvs (py ''session_id''))) \<longrightarrow>
      query env rj s =
        (Inr (error_response (py ''user_id and session_id are required'') 400), s)) \<and>
   (\<forall>kvs. rj = Inr (PDict kvs) \<and>
          truthy (lookup kvs (py ''user_id'')) \<and> truthy (lookup kvs (py ''session_id'')) \<and>
          (\<not> truthy (lookup kvs (py ''query'')) \<or>
           (\<exists>t. lookup kvs (py ''query'') = PStr t \<and> strip t = [])) \<longrightarrow>
      query env rj s = (Inr (error_response (py ''query is required'') 400), s)) \<and>
   (\<not> (\<exists>kvs. rj = Inr (PDict kvs) \<and> valid_body kvs) \<longrightarrow> snd (query env rj s) = s) \<and>
   (\<forall>kvs. rj = Inr (PDict kvs) \<and> valid_body kvs \<longrightarrow>
      query env rj s =
        (case initialize_chatbot env s of
           (Inl e, s1) \<Rightarrow> (Inr (error_response (exn_message e) 500), s1)
         | (Inr b, s1) \<Rightarrow>
             (case bot_query env (lookup kvs (py ''query'')) (lookup kvs (py ''user_id''))
                     (lookup kvs (py ''session_id'')) (world s1) of
                (Inl e, w) \<Rightarrow>
                  (Inr (error_response (exn_message e) 500),
                   s1\<lparr>world := w,
                       calls := calls s1 @ [BotQuery (lookup kvs (py ''query''))
                                              (lookup kvs (py ''user_id''))
                                              (lookup kvs (py ''session_id''))]\<rparr>)
              | (Inr r, w) \<Rightarrow>
                  (Inr \<lparr>body = PDict [(py ''success'', PBool True),
                                      (py ''response'', answer_value r),
                                      (py ''sessionId'', lookup kvs (py ''session_id''))],
                         status = 200\<rparr>,
                   s1\<lparr>world := w,
                       calls := calls s1 @ [BotQuery (lookup kvs (py ''query''))
                                              (lookup kvs (py ''user_id''))
                                              (lookup kvs (py ''session_id''))]\<rparr>))))"
proof (intro conjI allI impI)
  show "\<exists>r. fst (query env rj s) = Inr r \<and>
        (status r = 200 \<or> status r = 400 \<or> status r = 500) \<and>
        (status r \<noteq> 200 \<longrightarrow> (\<exists>msg. body r = PDict [(py ''error'', PStr msg)]))"
    by (rule query_total)
  show "query env rj s =
        (Inr (error_response (py ''user_id and session_id are required'') 400), s)"
    if "rj = Inr (PDict kvs) \<and>
          (\<not> truthy (lookup kvs (py ''user_id'')) \<or> \<not> truthy (lookup kvs (py ''session_id'')))"
    for kvs
    using that by (simp add: query_ids_required)
  show "query env rj s = (Inr (error_response (py ''query is required'') 400), s)"
    if "rj = Inr (PDict kvs) \<and>
          truthy (lookup kvs (py ''user_id'')) \<and> truthy (lookup kvs (py ''session_id'')) \<and>
          (\<not> truthy (lookup kvs (py ''query'')) \<or>
           (\<exists>t. lookup kvs (py ''query'') = PStr t \<and> strip t = []))"
    for kvs
    using that query_required[of kvs env s] by blast
  show "snd (query env rj s) = s"
    if "\<not> (\<exists>kvs. rj = Inr (PDict kvs) \<and> valid_body kvs)"
    using that by (rule query_invalid_state)
  show "query env rj s =
        (case initialize_chatbot env s of
           (Inl e, s1) \<Rightarrow> (Inr (error_response (exn_message e) 500), s1)
         | (Inr b, s1) \<Rightarrow>
             (case bot_query env (lookup kvs (py ''query'')) (lookup kvs (py ''user_id''))
                     (lookup kvs (py ''session_id'')) (world s1) of
                (Inl e, w) \<Rightarrow>
                  (Inr (error_response (exn_message e) 500),
                   s1\<lparr>world := w,
                       calls := calls s1 @ [BotQuery (lookup kvs (py ''query''))
                                              (lookup kvs (py ''user_id''))
                                              (lookup kvs (py ''session_id''))]\<rparr>)
              | (Inr r, w) \<Rightarrow>
                  (Inr \<lparr>body = PDict [(py ''success'', PBool True),
                                      (py ''response'', answer_value r),
                                      (py ''sessionId'', lookup kvs (py ''session_id''))],
                         status = 200\<rparr>,
                   s1\<lparr>world := w,
                       calls := calls s1 @ [BotQuery (lookup kvs (py ''query''))
                                              (lookup kvs (py ''user_id''))
                                              (lookup kvs (py ''session_id''))]\<rparr>)))"
    if "rj = Inr (PDict kvs) \<and> valid_body kvs" for kvs
    using that by (simp add: query_valid_body)
qed

text \<open>The scenario of the specification: an empty query with both identifiers.\<close>

theorem query_handler_outcome_witness:
  "truthy (lookup empty_query_body (py ''user_id'')) \<and>
   truthy (lookup empty_query_body (py ''session_id'')) \<and>
   \<not> truthy (lookup empty_query_body (py ''query'')) \<and>
   query (stub_env None) (Inr (PDict empty_query_body)) (initial_state ()) =
     (Inr (error_response (py ''query is required'') 400), initial_state ())"
proof -
  note t = query_handler_outcome[of "stub_env None" "Inr (PDict empty_query_body)" "initial_state ()"]
  have a: "truthy (lookup empty_query_body (py ''user_id''))"
    "truthy (lookup empty_query_body (py ''session_id''))"
    "\<not> truthy (lookup empty_query_body (py ''query''))"
    by (simp_all add: empty_query_body_def lookup_def py_def)
  note t3 = t[THEN conjunct2, THEN conjunct2, THEN conjunct1, rule_format, of empty_query_body]
  from a have "query (stub_env None) (Inr (PDict empty_query_body)) (initial_state ()) =
     (Inr (error_response (py ''query is required'') 400), initial_state ())"
    by (intro t3) simp
  with a show ?thesis by blast
qed

text \<open>
  Claim C5 as it is stated fails for a \<open>user_id\<close> of whitespace only: it is blank, and the
  request is answered 200 after the orchestrator has been called.
\<close>

theorem query_blank_user_id_counterexample:
  "strip (py '' '') = [] \<and>
   fst (query (stub_env (Some (py ''ok''))) (Inr (PDict blank_user_body)) (initial_state ())) =
     Inr \<lparr>body = PDict [(py ''success'', PBool True), (py ''response'', PStr (py ''ok'')),
                        (py ''sessionId'', PStr (py ''s1''))],
          status = 200\<rparr> \<and>
   BotQuery (PStr (py ''hi'')) (PStr (py '' '')) (PStr (py ''s1'')) \<in>
     set (calls (snd (query (stub_env (Some (py ''ok''))) (Inr (PDict blank_user_body))
                        (initial_state ()))))"
proof -
  have l: "lookup blank_user_body (py ''user_id'') = PStr (py '' '')"
    "lookup blank_user_body (py ''session_id'') = PStr (py ''s1'')"
    "lookup blank_user_body (py ''query'') = PStr (py ''hi'')"
    by (simp_all add: blank_user_body_def lookup_def py_def)
  have s: "strip (py ''hi'') \<noteq> []" "strip (py '' '') = []"
    by (simp_all add: strip_def py_def isspace_def)
  have v: "valid_body blank_user_body"
    using s(1) by (simp add: valid_body_def l) (simp add: py_def)
  have b: "bot_query (stub_env (Some (py ''ok''))) q u sid w = (Inr (Some (py ''ok'')), w)"
    for q u sid w
    by (simp add: stub_env_def)
  show ?thesis
    using s(2)
    by (simp add: query_valid_body[OF v] initialize_stub b l answer_value_def)
qed

section \<open>The routing rules\<close>



lemma pipeline_names:
  "py ''RAG'' \<noteq> py ''EXTERNAL'' \<and> py ''RAG'' \<noteq> py ''UNKNOWN'' \<and> py ''EXTERNAL'' \<noteq> py ''UNKNOWN''"
  by (simp add: py_def)



text \<open>
  The \<open>pipeline\<close> that \<open>route_query\<close> reports has two values only: \<open>RAG\<close> for an intent
  among the RAG intents and \<open>EXTERNAL\<close> for every other intent. It is the one of
  \<open>get_pipeline_for_intent\<close> on the intents of the two lists, and differs from it on every
  other intent.
\<close>

lemma route_query_pipeline:
  "use_rag (route_of_intent intent) = (intent \<in> set rag_intents) \<and>
   use_external (route_of_intent intent) = (intent \<in> set external_intents) \<and>
   pipeline (route_of_intent intent) =
     (if intent \<in> set rag_intents then py ''RAG'' else py ''EXTERNAL'') \<and>
   (pipeline (route_of_intent intent) = get_pipeline_for_intent intent \<longleftrightarrow>
      intent \<in> set rag_intents \<union> set external_intents)"
  using pipeline_names
  by (auto simp: get_pipeline_for_intent_def route_of_intent_def should_use_rag_def
        should_use_external_def)

end
